theory Spec2Isabelle
  imports Main "HOL-Library.Char_ord" "HOL-Library.List_Lexorder" "HOL-Library.Sublist"
    "HOL-Library.Extended_Nat"
begin

section \<open>The metrics lookup tools of the finance notebook\<close>

text \<open>
  The notebook loads a table \<^verbatim>\<open>METRICS = json.load(open('metrics.json'))\<close> and defines
  a whitelist \<^verbatim>\<open>SYMBOLS\<close>, a guard \<^verbatim>\<open>_symbol_is_valid\<close> and the two tools
  \<^verbatim>\<open>get_latest_metrics\<close> and \<^verbatim>\<open>get_all_metrics\<close>.

  A Python \<^verbatim>\<open>dict\<close> keeps its keys in insertion order and \<^verbatim>\<open>json.dumps\<close> prints them
  in that order, so a dict is an association list here (the keys of a dict are distinct;
  no statement below needs it). Python strings are lists of
  characters compared by code point (the order of \<open>Char_ord\<close> lifted to lists); the
  characters of the model are the code points below 256. The table has the shape the
  recorded tool output shows: symbol, then date, then metric name, then a number. The
  numbers are floats and integers; their type is the parameter \<open>'v\<close> and the text Python
  prints for one is the parameter \<open>num\<close> of the serialiser.
\<close>

datatype error = KeyError | ValueError

type_synonym ('k, 'v) dict = "('k \<times> 'v) list"

type_synonym 'v metrics_table = "(string, (string, (string, 'v) dict) dict) dict"

text \<open>\<^verbatim>\<open>k in d\<close>, \<^verbatim>\<open>d[k]\<close> (which raises KeyError on a missing key) and iteration over the keys.\<close>

definition dict_contains :: "('k, 'v) dict \<Rightarrow> 'k \<Rightarrow> bool" where
  "dict_contains d k = (k \<in> set (map fst d))"

definition dict_getitem :: "('k, 'v) dict \<Rightarrow> 'k \<Rightarrow> error + 'v" where
  "dict_getitem d k = (case map_of d k of None \<Rightarrow> Inl KeyError | Some v \<Rightarrow> Inr v)"

definition dict_keys :: "('k, 'v) dict \<Rightarrow> 'k list" where
  "dict_keys d = map fst d"

text \<open>
  The builtin \<^verbatim>\<open>max(iterable)\<close>: ValueError on an empty iterable, otherwise the first
  item is kept until a strictly greater one is met.
\<close>

fun py_max :: "'a::linorder list \<Rightarrow> error + 'a" where
  "py_max [] = Inl ValueError"
| "py_max (x # xs) = Inr (fold (\<lambda>item max_item. if item > max_item then item else max_item) xs x)"

text \<open>
  \<^verbatim>\<open>json.dumps\<close> with its default arguments: \<^verbatim>\<open>ensure_ascii=True\<close>, item separator
  \<^verbatim>\<open>", "\<close>, key separator \<^verbatim>\<open>": "\<close>. A string is quoted; the quote and the backslash are
  escaped with a backslash, backspace, form feed, newline, carriage return and tab have
  their letter escapes, and every other character outside the range from space to tilde
  is printed as a backslash, \<^verbatim>\<open>u\<close> and four lower-case hexadecimal digits.
\<close>

definition hex_digit :: "nat \<Rightarrow> char" where
  "hex_digit n = ''0123456789abcdef'' ! (n mod 16)"

definition escape_char :: "char \<Rightarrow> string" where
  "escape_char c =
     (let n = (of_char c :: nat) in
      if n = 0x22 then [CHR 0x5C, CHR 0x22]
      else if n = 0x5C then [CHR 0x5C, CHR 0x5C]
      else if n = 0x08 then [CHR 0x5C, CHR ''b'']
      else if n = 0x0C then [CHR 0x5C, CHR ''f'']
      else if n = 0x0A then [CHR 0x5C, CHR ''n'']
      else if n = 0x0D then [CHR 0x5C, CHR ''r'']
      else if n = 0x09 then [CHR 0x5C, CHR ''t'']
      else if n < 0x20 \<or> 0x7E < n
        then [CHR 0x5C, CHR ''u'', CHR ''0'', CHR ''0'', hex_digit (n div 16), hex_digit n]
      else [c])"

definition json_str :: "string \<Rightarrow> string" where
  "json_str s = CHR 0x22 # concat (map escape_char s) @ [CHR 0x22]"

text \<open>\<^verbatim>\<open>sep.join(items)\<close>.\<close>

fun join :: "string \<Rightarrow> string list \<Rightarrow> string" where
  "join sep [] = []"
| "join sep [x] = x"
| "join sep (x # y # ys) = x @ sep @ join sep (y # ys)"

text \<open>A dict is printed as its items in order, each as key, colon, value; the empty dict as \<^verbatim>\<open>{}\<close>.\<close>

definition json_object :: "('a \<Rightarrow> string) \<Rightarrow> (string, 'a) dict \<Rightarrow> string" where
  "json_object val d =
     ''{'' @ join '', '' (map (\<lambda>(k, v). json_str k @ '': '' @ val v) d) @ ''}''"

text \<open>\<^verbatim>\<open>json.dumps\<close> of a mapping from dates to metric mappings.\<close>

definition json_dumps :: "('v \<Rightarrow> string) \<Rightarrow> (string, (string, 'v) dict) dict \<Rightarrow> string" where
  "json_dumps num d = json_object (json_object num) d"

text \<open>The whitelist of the notebook.\<close>

definition SYMBOLS :: "string list" where
  "SYMBOLS = [''TSLA.US'', ''AMZN.US'', ''AAPL.US'']"

text \<open>\<^verbatim>\<open>return symbol in SYMBOLS and symbol in METRICS\<close>\<close>

definition symbol_is_valid :: "'v metrics_table \<Rightarrow> string \<Rightarrow> bool" where
  "symbol_is_valid METRICS symbol = (symbol \<in> set SYMBOLS \<and> dict_contains METRICS symbol)"

text \<open>
  \<^verbatim>\<open>
  if not _symbol_is_valid(symbol):
      return "{}"
  latest_date = max(METRICS[symbol])
  latest_data = METRICS[symbol][latest_date]
  return json.dumps({latest_date: latest_data})
  \<close>
  Every subscript and the call of \<^verbatim>\<open>max\<close> is a place where Python may raise; each is a
  branch of the model.
\<close>

definition get_latest_metrics :: "('v \<Rightarrow> string) \<Rightarrow> 'v metrics_table \<Rightarrow> string \<Rightarrow> error + string" where
  "get_latest_metrics num METRICS symbol =
     (if \<not> symbol_is_valid METRICS symbol then Inr ''{}''
      else case dict_getitem METRICS symbol of
        Inl e \<Rightarrow> Inl e
      | Inr per_date \<Rightarrow>
          (case py_max (dict_keys per_date) of
             Inl e \<Rightarrow> Inl e
           | Inr latest_date \<Rightarrow>
               (case dict_getitem METRICS symbol of
                  Inl e \<Rightarrow> Inl e
                | Inr per_date' \<Rightarrow>
                    (case dict_getitem per_date' latest_date of
                       Inl e \<Rightarrow> Inl e
                     | Inr latest_data \<Rightarrow> Inr (json_dumps num [(latest_date, latest_data)])))))"

text \<open>
  \<^verbatim>\<open>
  if not _symbol_is_valid(symbol):
      return "{}"
  return json.dumps(METRICS[symbol])
  \<close>
\<close>

definition get_all_metrics :: "('v \<Rightarrow> string) \<Rightarrow> 'v metrics_table \<Rightarrow> string \<Rightarrow> error + string" where
  "get_all_metrics num METRICS symbol =
     (if \<not> symbol_is_valid METRICS symbol then Inr ''{}''
      else case dict_getitem METRICS symbol of
        Inl e \<Rightarrow> Inl e
      | Inr per_date \<Rightarrow> Inr (json_dumps num per_date))"

text \<open>
  \<^verbatim>\<open>METRICS\<close> is a module-level global, so a call of a tool runs against the table of
  the moment and leaves a table behind. Neither tool assigns to the table or to one of
  its entries: a call returns the table it was given.
\<close>

definition call_get_all_metrics ::
  "('v \<Rightarrow> string) \<Rightarrow> string \<Rightarrow> 'v metrics_table \<Rightarrow> (error + string) \<times> 'v metrics_table" where
  "call_get_all_metrics num symbol METRICS = (get_all_metrics num METRICS symbol, METRICS)"

section \<open>The round-robin team and its termination conditions\<close>

text \<open>
  Both notebooks configure a team of the agent framework they import,
  \<^verbatim>\<open>RoundRobinGroupChat(participants, termination_condition=...)\<close>, with
  \<^verbatim>\<open>MaxMessageTermination(6)\<close> in the workshop notebook and
  \<^verbatim>\<open>TextMentionTermination('APPROVE') | MaxMessageTermination(12)\<close> in the finance
  notebook. The repository holds these calls and the output the notebooks recorded, not
  the scheduler that runs them.
\<close>

text \<open>
  Modelled from the spec: a message of the transcript, which the framework's message
  classes supply. It has a source, the name of the participant that emitted it or
  \<^verbatim>\<open>user\<close>, and a content; its sequence index is its position in the transcript.
\<close>

record message =
  source :: string
  content :: string

text \<open>
  Modelled from the spec: a participant of the turn scheduler. It has a name and an
  invocation that reads the transcript and produces zero or more messages or fails
  (\<open>None\<close>); it keeps no state between turns. The invocation yields the contents; the
  message made of one carries the name of the participant as its source.
\<close>

record participant =
  name :: string
  invoke :: "message list \<Rightarrow> string list option"

text \<open>
  Modelled from the spec: the messages of one turn, made of the contents the invocation
  of the participant returned, in the order produced.
\<close>

definition emitted :: "participant \<Rightarrow> string list \<Rightarrow> message list" where
  "emitted p contents = map (\<lambda>x. \<lparr>source = name p, content = x\<rparr>) contents"

text \<open>
  Modelled from the spec: the test of the content match, a case-sensitive search for the
  marker as a contiguous substring of the content (Python's \<^verbatim>\<open>marker in text\<close>).
\<close>

fun contains :: "string \<Rightarrow> string \<Rightarrow> bool" where
  "contains [] marker = (marker = [])"
| "contains (c # cs) marker = (prefix marker (c # cs) \<or> contains cs marker)"

text \<open>
  Modelled from the spec: the termination predicate of the turn scheduler, which the
  imported framework supplies. There are three variants: a message-count bound that
  owns a counter (threshold, then the count so far), a content match on a marker, and
  the logical OR of two conditions. A condition observes one message at a time and
  answers with its next state and, when it fires, with the variant that fired; the
  children of an OR both observe the message and the left one is reported first.
\<close>

datatype stopped_by = CountBoundFired | ContentMatchFired

datatype condition =
    CountBound nat nat
  | ContentMatch string
  | LogicalOr condition condition

text \<open>
  Modelled from the spec: the evaluation of a condition on the message just appended.
  The count bound counts the message and fires once the count reaches the threshold;
  the content match fires when the content of the message contains the marker.
\<close>

fun evaluate :: "condition \<Rightarrow> message \<Rightarrow> condition \<times> stopped_by option" where
  "evaluate (CountBound N k) m =
     (CountBound N (Suc k), if N \<le> Suc k then Some CountBoundFired else None)"
| "evaluate (ContentMatch marker) m =
     (ContentMatch marker, if contains (content m) marker then Some ContentMatchFired else None)"
| "evaluate (LogicalOr a b) m =
     (case evaluate a m of (a', fa) \<Rightarrow>
        (case evaluate b m of (b', fb) \<Rightarrow>
           (LogicalOr a' b', case fa of Some r \<Rightarrow> Some r | None \<Rightarrow> fb)))"

text \<open>Modelled from the spec: the reset of the counters of a condition at the start of a run.\<close>

fun reset :: "condition \<Rightarrow> condition" where
  "reset (CountBound N k) = CountBound N 0"
| "reset (ContentMatch marker) = ContentMatch marker"
| "reset (LogicalOr a b) = LogicalOr (reset a) (reset b)"

text \<open>
  Modelled from the spec: the check of a condition at the construction of a run. A
  threshold below one is a configuration error.
\<close>

fun well_configured :: "condition \<Rightarrow> bool" where
  "well_configured (CountBound N k) = (1 \<le> N)"
| "well_configured (ContentMatch marker) = True"
| "well_configured (LogicalOr a b) = (well_configured a \<and> well_configured b)"

text \<open>
  Modelled from the spec: the errors and the terminal statuses of a run. A failed
  invocation carries the partial transcript; reaching the hard cap is a status, not an
  error.
\<close>

datatype run_error = ConfigurationError | ParticipantInvocationError "message list"

datatype status = Stopped stopped_by | Exhausted

text \<open>
  Modelled from the spec: appending the messages of one turn. Each message is appended
  and then shown to the condition; once the condition fires nothing more is appended.
\<close>

fun append_messages ::
  "condition \<Rightarrow> message list \<Rightarrow> message list \<Rightarrow> condition \<times> message list \<times> stopped_by option" where
  "append_messages c transcript [] = (c, transcript, None)"
| "append_messages c transcript (m # ms) =
     (case evaluate c m of
        (c', Some r) \<Rightarrow> (c', transcript @ [m], Some r)
      | (c', None) \<Rightarrow> append_messages c' (transcript @ [m]) ms)"

text \<open>
  Modelled from the spec: one round of the turn scheduler. The participants are invoked
  in list order, each with the transcript so far. A failed invocation aborts the run
  with the partial transcript; a condition that fires ends the run before the next
  participant is invoked. The last number counts the invocations issued.
\<close>

datatype round_result =
    Continue condition "message list" nat
  | Finished "run_error + status \<times> message list \<times> nat"

fun play_round :: "participant list \<Rightarrow> condition \<Rightarrow> message list \<Rightarrow> nat \<Rightarrow> round_result" where
  "play_round [] c transcript turns = Continue c transcript turns"
| "play_round (p # ps) c transcript turns =
     (case invoke p transcript of
        None \<Rightarrow> Finished (Inl (ParticipantInvocationError transcript))
      | Some contents \<Rightarrow>
          (case append_messages c transcript (emitted p contents) of
             (c', transcript', Some r) \<Rightarrow> Finished (Inr (Stopped r, transcript', Suc turns))
           | (c', transcript', None) \<Rightarrow> play_round ps c' transcript' (Suc turns)))"

text \<open>
  Modelled from the spec: the rounds of a run under the hard cap. \<open>k\<close> rounds have been
  played; at the cap the run ends with the status \<open>Exhausted\<close>.
\<close>

function rounds ::
  "nat \<Rightarrow> nat \<Rightarrow> participant list \<Rightarrow> condition \<Rightarrow> message list \<Rightarrow> nat \<Rightarrow>
     run_error + status \<times> message list \<times> nat" where
  "rounds max_rounds k ps c transcript turns =
     (if max_rounds \<le> k then Inr (Exhausted, transcript, turns)
      else case play_round ps c transcript turns of
        Finished r \<Rightarrow> r
      | Continue c' transcript' turns' \<Rightarrow> rounds max_rounds (Suc k) ps c' transcript' turns')"
  by pat_completeness auto
termination
  by (relation "measure (\<lambda>(max_rounds, k, ps, c, transcript, turns). max_rounds - k)") auto

text \<open>
  Modelled from the spec: a run of the turn scheduler, the
  \<^verbatim>\<open>RoundRobinGroupChat(...).run_stream(task=...)\<close> of the notebooks, whose code is in
  the imported framework. An empty participant list or a threshold below one is a
  configuration error. The transcript starts with the task as a message from
  \<^verbatim>\<open>user\<close>, then rounds are played until the condition fires, a participant fails or
  the cap is reached. The result is the status, the transcript and the number of
  invocations.

  In this definition the seed is appended like every other message, so the condition
  observes it: sections 3 and 4.2 of the spec make the seed a message of the transcript
  and evaluate the condition after each message is appended (the run recorded in the
  workshop notebook counts the message of the user as well). Section 8 of the spec
  counts the messages beyond the seed instead; that reading is \<open>run_after_seed\<close> below.
  The two differ only in whether the condition is shown the seed.
\<close>

definition run ::
  "participant list \<Rightarrow> string \<Rightarrow> condition \<Rightarrow> nat \<Rightarrow> run_error + status \<times> message list \<times> nat" where
  "run ps task c max_rounds =
     (if ps = [] \<or> \<not> well_configured c then Inl ConfigurationError
      else case append_messages (reset c) [] [\<lparr>source = ''user'', content = task\<rparr>] of
        (c', transcript, Some r) \<Rightarrow> Inr (Stopped r, transcript, 0)
      | (c', transcript, None) \<Rightarrow> rounds max_rounds 0 ps c' transcript 0)"

text \<open>
  Modelled from the spec: a run of the turn scheduler in the reading of sections 4.1 and
  8 of the spec; the scheduler itself is in the imported framework. The transcript is
  initialised with the seed, and the condition is evaluated after each message that the
  turn of a participant appends: it is not shown the seed, so a count bound counts the
  messages beyond the seed. Configuration errors, rounds and the hard cap are those of
  \<open>run\<close>.
\<close>

definition run_after_seed ::
  "participant list \<Rightarrow> string \<Rightarrow> condition \<Rightarrow> nat \<Rightarrow> run_error + status \<times> message list \<times> nat" where
  "run_after_seed ps task c max_rounds =
     (if ps = [] \<or> \<not> well_configured c then Inl ConfigurationError
      else rounds max_rounds 0 ps (reset c) [\<lparr>source = ''user'', content = task\<rparr>] 0)"

text \<open>The termination condition of the finance notebook and the one of the workshop notebook.\<close>

definition termination_condition :: condition where
  "termination_condition = LogicalOr (ContentMatch ''APPROVE'') (CountBound 12 0)"

definition team_condition :: condition where
  "team_condition = CountBound 6 0"

section \<open>Sample inputs\<close>

text \<open>A small metrics table in the shape of the recorded tool output, and a printer for its numbers.\<close>

definition sample_num :: "int \<Rightarrow> string" where
  "sample_num n = (if n = 2 then ''2'' else ''664000000'')"

definition sample_metrics :: "int metrics_table" where
  "sample_metrics =
     [(''TSLA.US'', [(''2024-12-31'', [(''current_ratio'', 2)]),
                     (''2025-03-31'', [(''current_ratio'', 2), (''free_cash_flow'', 664000000)]),
                     (''2024-09-30'', [])]),
      (''MSFT.US'', [(''2025-03-31'', [(''current_ratio'', 2)])]),
      (''AAPL.US'', [])]"

text \<open>A table in which a whitelisted symbol is stored with no quarter at all.\<close>

definition empty_quarters :: "int metrics_table" where
  "empty_quarters = [(''TSLA.US'', [])]"

section \<open>Notions used in the statements about a run\<close>




text \<open>A participant that never fails and produces at least one message in every turn.\<close>

definition always_produces :: "participant \<Rightarrow> bool" where
  "always_produces p = (\<forall>transcript. \<exists>contents. invoke p transcript = Some contents \<and> contents \<noteq> [])"

text \<open>A participant that never fails and produces exactly one message in every turn.\<close>

definition one_message :: "participant \<Rightarrow> bool" where
  "one_message p = (\<forall>transcript. \<exists>x. invoke p transcript = Some [x])"



text \<open>The transcript a run or a round leaves behind, whatever its outcome.\<close>

fun transcript_of :: "run_error + status \<times> message list \<times> nat \<Rightarrow> message list" where
  "transcript_of (Inl ConfigurationError) = []"
| "transcript_of (Inl (ParticipantInvocationError t)) = t"
| "transcript_of (Inr (st, t, n)) = t"

fun round_transcript :: "round_result \<Rightarrow> message list" where
  "round_transcript (Continue c t n) = t"
| "round_transcript (Finished r) = transcript_of r"

section \<open>Invariants of a run\<close>

text \<open>
  A run is followed through an invariant of the scheduler state, the pair of the
  condition and the transcript. An invariant that every quiet observation preserves
  holds when the run is exhausted or fails, and held just before the message that
  stopped it.
\<close>






text \<open>The sources after the seed follow the two participants in turn.\<close>

definition alternating :: "participant \<Rightarrow> participant \<Rightarrow> message list \<Rightarrow> bool" where
  "alternating A B t = (\<forall>i. Suc i < length t \<longrightarrow> source (t ! Suc i) = name ([A, B] ! (i mod 2)))"

fun round_alternating :: "participant \<Rightarrow> participant \<Rightarrow> round_result \<Rightarrow> bool" where
  "round_alternating A B (Continue c t n) = (odd (length t) \<and> alternating A B t)"
| "round_alternating A B (Finished (Inr (st, t, n))) = alternating A B t"
| "round_alternating A B (Finished (Inl e)) = False"


section \<open>Sample teams\<close>

text \<open>
  Participants with a fixed behaviour, the two teams of the notebooks made of them, and
  the transcripts their runs produce. The replies stand for the texts of the language
  model.
\<close>

text \<open>A participant that answers every invocation with one fixed message, and one whose invocation always fails.\<close>

definition replies :: "string \<Rightarrow> string \<Rightarrow> participant" where
  "replies n text = \<lparr>name = n, invoke = (\<lambda>transcript. Some [text])\<rparr>"




text \<open>
  The team of the workshop notebook, and the lone participant of the scenario in section 8
  of the spec, which emits exactly one message per invocation.
\<close>

definition team :: "participant list" where
  "team = [replies ''PriceWatcher'' ''180.15'', replies ''NewsSummarizer'' ''summary'',
           replies ''RiskOfficer'' ''180.15'', replies ''TraderBot'' ''Hold'']"

text \<open>The transcripts of the sample runs.\<close>

definition lone_participant :: "participant list" where
  "lone_participant = [replies ''Analyst'' ''noted'']"



section \<open>Properties of the metrics lookup\<close>

subsection \<open>The builtins\<close>

lemma py_max_fold: "fold (\<lambda>item max_item. if item > max_item then item else max_item) xs (x::'a::linorder) = Max (set (x # xs))"
proof -
  have "(\<lambda>item max_item. if item > max_item then item else max_item) = (max :: 'a \<Rightarrow> 'a \<Rightarrow> 'a)"
    by (intro ext) (auto simp: max_def)
  then show ?thesis by (simp only: Max.set_eq_fold)
qed

lemma py_max_Max: "xs \<noteq> [] \<Longrightarrow> py_max xs = Inr (Max (set xs))"
  by (cases xs) (simp_all only: py_max.simps py_max_fold list.simps)

lemma join_Cons: "\<exists>r. join sep (x # xs) = x @ r"
  by (cases xs) simp_all

lemma json_object_nonempty: "d \<noteq> [] \<Longrightarrow> json_object val d \<noteq> ''{}''"
proof (cases d)
  case Nil
  assume "d \<noteq> []" with Nil show ?thesis by simp
next
  case (Cons kv rest)
  obtain k v where kv: "kv = (k, v)" by (cases kv)
  obtain r where "join '', '' (map (\<lambda>(k, v). json_str k @ '': '' @ val v) d) = (json_str k @ '': '' @ val v) @ r"
    using join_Cons [of "'', ''" "json_str k @ '': '' @ val v" "map (\<lambda>(k, v). json_str k @ '': '' @ val v) rest"]
    by (auto simp: Cons kv)
  then show ?thesis by (simp add: json_object_def json_str_def)
qed

lemma dict_getitem_contains: "dict_contains d k \<Longrightarrow> \<exists>v. dict_getitem d k = Inr v"
  unfolding dict_contains_def dict_getitem_def
  by (cases "map_of d k") (auto simp: map_of_eq_None_iff)

lemma dict_getitem_Inr: "dict_getitem d k = Inr v \<longleftrightarrow> map_of d k = Some v"
  by (simp add: dict_getitem_def split: option.splits)

lemma dict_getitem_max_key:
  assumes "d \<noteq> []"
  shows "\<exists>v. dict_getitem d (Max (set (dict_keys d))) = Inr v"
proof -
  have "Max (set (dict_keys d)) \<in> set (dict_keys d)"
    using assms by (intro Max_in) (simp_all add: dict_keys_def)
  then have "dict_contains d (Max (set (dict_keys d)))"
    by (simp add: dict_contains_def dict_keys_def)
  then show ?thesis by (rule dict_getitem_contains)
qed

subsection \<open>The two tools, case by case\<close>

lemma get_latest_metrics_invalid: "\<not> symbol_is_valid METRICS symbol \<Longrightarrow> get_latest_metrics num METRICS symbol = Inr ''{}''"
  by (simp add: get_latest_metrics_def)

lemma get_all_metrics_invalid: "\<not> symbol_is_valid METRICS symbol \<Longrightarrow> get_all_metrics num METRICS symbol = Inr ''{}''"
  by (simp add: get_all_metrics_def)

lemma get_all_metrics_valid:
  "symbol_is_valid METRICS symbol \<Longrightarrow> dict_getitem METRICS symbol = Inr per_date \<Longrightarrow>
   get_all_metrics num METRICS symbol = Inr (json_dumps num per_date)"
  by (simp add: get_all_metrics_def)

lemma get_latest_metrics_valid:
  assumes "symbol_is_valid METRICS symbol" "dict_getitem METRICS symbol = Inr per_date" "per_date \<noteq> []"
    and "dict_getitem per_date (Max (set (dict_keys per_date))) = Inr latest_data"
  shows "get_latest_metrics num METRICS symbol =
    Inr (json_dumps num [(Max (set (dict_keys per_date)), latest_data)])"
proof -
  have "dict_keys per_date \<noteq> []" using assms(3) by (simp add: dict_keys_def)
  then have "py_max (dict_keys per_date) = Inr (Max (set (dict_keys per_date)))"
    by (rule py_max_Max)
  with assms show ?thesis by (simp add: get_latest_metrics_def)
qed

lemma get_latest_metrics_valid_empty:
  assumes "symbol_is_valid METRICS symbol" "dict_getitem METRICS symbol = Inr []"
  shows "get_latest_metrics num METRICS symbol = Inl ValueError"
  using assms by (simp add: get_latest_metrics_def dict_keys_def)

text \<open>
  Claim C5. For a symbol that passes \<^verbatim>\<open>_symbol_is_valid\<close> and whose per-date mapping
  is not empty, \<^verbatim>\<open>get_latest_metrics\<close> returns the JSON text of an object with exactly
  one entry: its key is the greatest date key of the mapping in the order of strings, its
  value the metric mapping stored under that date. \<^verbatim>\<open>get_all_metrics\<close> returns the JSON
  text of the whole per-date mapping, entries unchanged and in their order.
\<close>

theorem latest_selects_max_date_all_returns_everything:
  assumes "symbol_is_valid METRICS symbol"
    and "dict_getitem METRICS symbol = Inr per_date"
    and "per_date \<noteq> []"
  shows "\<exists>latest_data.
           map_of per_date (Max (set (dict_keys per_date))) = Some latest_data \<and>
           get_latest_metrics num METRICS symbol =
             Inr (json_dumps num [(Max (set (dict_keys per_date)), latest_data)]) \<and>
           json_dumps num [(Max (set (dict_keys per_date)), latest_data)] =
             ''{'' @ json_str (Max (set (dict_keys per_date))) @ '': '' @ json_object num latest_data @ ''}'' \<and>
           get_all_metrics num METRICS symbol = Inr (json_dumps num per_date)"
proof -
  obtain latest_data where ld: "dict_getitem per_date (Max (set (dict_keys per_date))) = Inr latest_data"
    using dict_getitem_max_key [OF assms(3)] by blast
  have "map_of per_date (Max (set (dict_keys per_date))) = Some latest_data"
    using ld by (simp only: dict_getitem_Inr)
  moreover have "get_latest_metrics num METRICS symbol =
      Inr (json_dumps num [(Max (set (dict_keys per_date)), latest_data)])"
    using assms ld by (rule get_latest_metrics_valid)
  moreover have "json_dumps num [(Max (set (dict_keys per_date)), latest_data)] =
      ''{'' @ json_str (Max (set (dict_keys per_date))) @ '': '' @ json_object num latest_data @ ''}''"
    by (simp add: json_dumps_def json_object_def)
  moreover have "get_all_metrics num METRICS symbol = Inr (json_dumps num per_date)"
    using assms(1,2) by (rule get_all_metrics_valid)
  ultimately show ?thesis by blast
qed

lemma sample_valid: "symbol_is_valid sample_metrics ''TSLA.US''"
  by (simp add: symbol_is_valid_def SYMBOLS_def dict_contains_def sample_metrics_def)

lemma sample_getitem: "dict_getitem sample_metrics ''TSLA.US'' = Inr [(''2024-12-31'', [(''current_ratio'', 2)]),
                     (''2025-03-31'', [(''current_ratio'', 2), (''free_cash_flow'', 664000000)]),
                     (''2024-09-30'', [])]"
  by (simp add: dict_getitem_def sample_metrics_def)

lemma sample_Max: "Max (set (dict_keys [(''2024-12-31'', [(''current_ratio'', 2::int)]),
                     (''2025-03-31'', [(''current_ratio'', 2), (''free_cash_flow'', 664000000)]),
                     (''2024-09-30'', [])])) = ''2025-03-31''"
  by (simp add: dict_keys_def)

theorem latest_selects_max_date_all_returns_everything_witness:
  "get_latest_metrics sample_num sample_metrics ''TSLA.US'' =
     Inr ''{\"2025-03-31\": {\"current_ratio\": 2, \"free_cash_flow\": 664000000}}'' \<and>
   get_all_metrics sample_num sample_metrics ''TSLA.US'' =
     Inr ''{\"2024-12-31\": {\"current_ratio\": 2}, \"2025-03-31\": {\"current_ratio\": 2, \"free_cash_flow\": 664000000}, \"2024-09-30\": {}}''"
  using latest_selects_max_date_all_returns_everything [OF sample_valid sample_getitem, of sample_num]
  apply (simp only: sample_Max)
  apply (simp add: json_dumps_def json_object_def json_str_def escape_char_def sample_num_def)
  done

lemma sample_unknown: "\<not> dict_contains sample_metrics ''GOOG.US''"
  by (simp add: dict_contains_def sample_metrics_def)

text \<open>
  Claim C6. For a symbol that is not a key of the metrics table both tools return the
  text \<^verbatim>\<open>{}\<close>; neither raises.
\<close>

theorem unknown_symbol_gives_empty_object:
  assumes "\<not> dict_contains METRICS symbol"
  shows "get_latest_metrics num METRICS symbol = Inr ''{}'' \<and>
         get_all_metrics num METRICS symbol = Inr ''{}''"
proof -
  have "\<not> symbol_is_valid METRICS symbol"
    using assms by (simp add: symbol_is_valid_def)
  then show ?thesis
    by (simp add: get_latest_metrics_invalid get_all_metrics_invalid)
qed

text \<open>
  Claim C8. A call of \<^verbatim>\<open>get_all_metrics\<close> leaves the metrics table as it found it, and
  its result is a function of the symbol and the table alone. Hence a second call, made
  on the table the first call left, returns the same string as the first.
\<close>

theorem all_metrics_twice_identical:
  "fst (call_get_all_metrics num symbol (snd (call_get_all_metrics num symbol METRICS))) =
     fst (call_get_all_metrics num symbol METRICS) \<and>
   snd (call_get_all_metrics num symbol METRICS) = METRICS \<and>
   fst (call_get_all_metrics num symbol METRICS) = get_all_metrics num METRICS symbol"
  by (simp add: call_get_all_metrics_def)

theorem unknown_symbol_gives_empty_object_witness:
  "\<not> dict_contains sample_metrics ''GOOG.US'' \<and>
   get_latest_metrics sample_num sample_metrics ''GOOG.US'' = Inr ''{}'' \<and>
   get_all_metrics sample_num sample_metrics ''GOOG.US'' = Inr ''{}''"
  using unknown_symbol_gives_empty_object [OF sample_unknown, of sample_num] sample_unknown
  by simp

lemma get_all_metrics_returns: "\<exists>s. get_all_metrics num METRICS symbol = Inr s"
proof (cases "symbol_is_valid METRICS symbol")
  case True
  then have "dict_contains METRICS symbol" by (simp add: symbol_is_valid_def)
  then have "\<exists>v. dict_getitem METRICS symbol = Inr v" by (rule dict_getitem_contains)
  then obtain per_date where "dict_getitem METRICS symbol = Inr per_date" ..
  with True show ?thesis by (simp add: get_all_metrics_valid)
next
  case False
  then show ?thesis by (simp add: get_all_metrics_invalid)
qed

lemma get_latest_metrics_cases:
  "(\<not> symbol_is_valid METRICS symbol \<and> get_latest_metrics num METRICS symbol = Inr ''{}'') \<or>
   (symbol_is_valid METRICS symbol \<and> dict_getitem METRICS symbol = Inr [] \<and>
      get_latest_metrics num METRICS symbol = Inl ValueError) \<or>
   (symbol_is_valid METRICS symbol \<and>
      (\<exists>per_date latest_data. dict_getitem METRICS symbol = Inr per_date \<and> per_date \<noteq> [] \<and>
         get_latest_metrics num METRICS symbol =
           Inr (json_dumps num [(Max (set (dict_keys per_date)), latest_data)])))"
proof (cases "symbol_is_valid METRICS symbol")
  case False
  then show ?thesis by (simp add: get_latest_metrics_invalid)
next
  case True
  then have "dict_contains METRICS symbol" by (simp add: symbol_is_valid_def)
  then have "\<exists>v. dict_getitem METRICS symbol = Inr v" by (rule dict_getitem_contains)
  then obtain per_date where pd: "dict_getitem METRICS symbol = Inr per_date" ..
  show ?thesis
  proof (cases "per_date = []")
    case True
    with \<open>symbol_is_valid METRICS symbol\<close> pd show ?thesis
      by (simp add: get_latest_metrics_valid_empty)
  next
    case False
    obtain latest_data where "dict_getitem per_date (Max (set (dict_keys per_date))) = Inr latest_data"
      using dict_getitem_max_key [OF False] by blast
    with True pd False have "get_latest_metrics num METRICS symbol =
           Inr (json_dumps num [(Max (set (dict_keys per_date)), latest_data)])"
      by (simp add: get_latest_metrics_valid)
    with True pd False show ?thesis by blast
  qed
qed

text \<open>
  Claim C9. For every symbol and every table neither tool raises KeyError: the guard
  lets a subscript of the table run only for a symbol that is one of its keys, and the
  date chosen by \<^verbatim>\<open>max\<close> is a key of the per-date mapping. If moreover the per-date
  mapping of a valid symbol is not empty, so that \<^verbatim>\<open>max\<close> is defined, both tools return
  a string.
\<close>

theorem lookups_never_raise_key_error:
  "get_latest_metrics num METRICS symbol \<noteq> Inl KeyError \<and>
   get_all_metrics num METRICS symbol \<noteq> Inl KeyError \<and>
   ((symbol_is_valid METRICS symbol \<longrightarrow> dict_getitem METRICS symbol \<noteq> Inr []) \<longrightarrow>
      (\<exists>s. get_latest_metrics num METRICS symbol = Inr s) \<and>
      (\<exists>s. get_all_metrics num METRICS symbol = Inr s))"
proof -
  obtain a where a: "get_all_metrics num METRICS symbol = Inr a"
    using get_all_metrics_returns [of num METRICS symbol] ..
  consider
      (invalid) "\<not> symbol_is_valid METRICS symbol"
        "get_latest_metrics num METRICS symbol = Inr ''{}''"
    | (empty) "symbol_is_valid METRICS symbol" "dict_getitem METRICS symbol = Inr []"
        "get_latest_metrics num METRICS symbol = Inl ValueError"
    | (found) s where "get_latest_metrics num METRICS symbol = Inr s"
    using get_latest_metrics_cases [of METRICS symbol num] by fast
  then show ?thesis
  proof cases
    case invalid
    with a show ?thesis by simp
  next
    case empty
    with a show ?thesis by simp
  next
    case found
    with a show ?thesis by simp
  qed
qed

theorem lookups_never_raise_key_error_witness:
  "dict_getitem sample_metrics ''TSLA.US'' \<noteq> Inr [] \<and>
   (\<exists>s. get_latest_metrics sample_num sample_metrics ''TSLA.US'' = Inr s) \<and>
   (\<exists>s. get_all_metrics sample_num sample_metrics ''TSLA.US'' = Inr s)"
  using lookups_never_raise_key_error [of sample_num sample_metrics "''TSLA.US''"]
  by (simp add: sample_getitem)

subsection \<open>When the result is not the empty object\<close>

lemma json_dumps_nonempty: "d \<noteq> [] \<Longrightarrow> json_dumps num d \<noteq> ''{}''"
  unfolding json_dumps_def by (rule json_object_nonempty)

lemma json_dumps_empty: "json_dumps num [] = ''{}''"
  by (simp add: json_dumps_def json_object_def)

lemma get_all_metrics_nonempty_iff:
  "(\<exists>s. get_all_metrics num METRICS symbol = Inr s \<and> s \<noteq> ''{}'') \<longleftrightarrow>
   (symbol_is_valid METRICS symbol \<and> (\<exists>per_date. dict_getitem METRICS symbol = Inr per_date \<and> per_date \<noteq> []))"
proof (cases "symbol_is_valid METRICS symbol")
  case False
  then have "get_all_metrics num METRICS symbol = Inr ''{}''" by (rule get_all_metrics_invalid)
  with False show ?thesis by simp
next
  case True
  then have "dict_contains METRICS symbol" by (simp add: symbol_is_valid_def)
  then have "\<exists>v. dict_getitem METRICS symbol = Inr v" by (rule dict_getitem_contains)
  then obtain per_date where pd: "dict_getitem METRICS symbol = Inr per_date" ..
  have all: "get_all_metrics num METRICS symbol = Inr (json_dumps num per_date)"
    using True pd by (rule get_all_metrics_valid)
  have "json_dumps num per_date \<noteq> ''{}'' \<longleftrightarrow> per_date \<noteq> []"
    using json_dumps_nonempty [of per_date num] json_dumps_empty [of num] by fastforce
  then show ?thesis unfolding all pd using True by simp
qed

lemma get_latest_metrics_nonempty_iff:
  "(\<exists>s. get_latest_metrics num METRICS symbol = Inr s \<and> s \<noteq> ''{}'') \<longleftrightarrow>
   (symbol_is_valid METRICS symbol \<and> (\<exists>per_date. dict_getitem METRICS symbol = Inr per_date \<and> per_date \<noteq> []))"
proof -
  consider
      (invalid) "\<not> symbol_is_valid METRICS symbol"
        "get_latest_metrics num METRICS symbol = Inr ''{}''"
    | (empty) "symbol_is_valid METRICS symbol" "dict_getitem METRICS symbol = Inr []"
        "get_latest_metrics num METRICS symbol = Inl ValueError"
    | (found) per_date latest_data where "symbol_is_valid METRICS symbol"
        "dict_getitem METRICS symbol = Inr per_date" "per_date \<noteq> []"
        "get_latest_metrics num METRICS symbol =
           Inr (json_dumps num [(Max (set (dict_keys per_date)), latest_data)])"
    using get_latest_metrics_cases [of METRICS symbol num] by fast
  then show ?thesis
  proof cases
    case invalid
    then show ?thesis by simp
  next
    case empty
    then show ?thesis by simp
  next
    case found
    have "json_dumps num [(Max (set (dict_keys per_date)), latest_data)] \<noteq> ''{}''"
      by (rule json_dumps_nonempty) simp
    with found show ?thesis by simp
  qed
qed

theorem nonempty_iff_valid_counterexample:
  "''TSLA.US'' \<in> set SYMBOLS \<and> dict_contains empty_quarters ''TSLA.US'' \<and>
   get_all_metrics sample_num empty_quarters ''TSLA.US'' = Inr ''{}'' \<and>
   get_latest_metrics sample_num empty_quarters ''TSLA.US'' = Inl ValueError"
  by (simp add: SYMBOLS_def dict_contains_def empty_quarters_def get_all_metrics_def
      get_latest_metrics_def symbol_is_valid_def dict_getitem_def dict_keys_def
      json_dumps_def json_object_def)

text \<open>
  Claim C10, amended. A symbol that is missing from the whitelist or from the table gets
  \<^verbatim>\<open>{}\<close> from both tools, also when the table stores data for it. Each tool returns a
  string other than \<^verbatim>\<open>{}\<close> exactly when the symbol is in the whitelist and in the table
  and its per-date mapping is not empty.
\<close>

theorem nonempty_iff_valid_and_has_quarters:
  "(symbol \<notin> set SYMBOLS \<or> \<not> dict_contains METRICS symbol \<longrightarrow>
      get_latest_metrics num METRICS symbol = Inr ''{}'' \<and>
      get_all_metrics num METRICS symbol = Inr ''{}'') \<and>
   ((\<exists>s. get_latest_metrics num METRICS symbol = Inr s \<and> s \<noteq> ''{}'') \<longleftrightarrow>
      (symbol \<in> set SYMBOLS \<and> dict_contains METRICS symbol) \<and>
      (\<exists>per_date. dict_getitem METRICS symbol = Inr per_date \<and> per_date \<noteq> [])) \<and>
   ((\<exists>s. get_all_metrics num METRICS symbol = Inr s \<and> s \<noteq> ''{}'') \<longleftrightarrow>
      (symbol \<in> set SYMBOLS \<and> dict_contains METRICS symbol) \<and>
      (\<exists>per_date. dict_getitem METRICS symbol = Inr per_date \<and> per_date \<noteq> []))"
proof (intro conjI impI)
  assume "symbol \<notin> set SYMBOLS \<or> \<not> dict_contains METRICS symbol"
  then have invalid: "\<not> symbol_is_valid METRICS symbol"
    unfolding symbol_is_valid_def by fast
  show "get_latest_metrics num METRICS symbol = Inr ''{}''"
    using invalid by (rule get_latest_metrics_invalid)
  show "get_all_metrics num METRICS symbol = Inr ''{}''"
    using invalid by (rule get_all_metrics_invalid)
next
  show "(\<exists>s. get_latest_metrics num METRICS symbol = Inr s \<and> s \<noteq> ''{}'') \<longleftrightarrow>
      (symbol \<in> set SYMBOLS \<and> dict_contains METRICS symbol) \<and>
      (\<exists>per_date. dict_getitem METRICS symbol = Inr per_date \<and> per_date \<noteq> [])"
    using get_latest_metrics_nonempty_iff [of num METRICS symbol]
    unfolding symbol_is_valid_def .
next
  show "(\<exists>s. get_all_metrics num METRICS symbol = Inr s \<and> s \<noteq> ''{}'') \<longleftrightarrow>
      (symbol \<in> set SYMBOLS \<and> dict_contains METRICS symbol) \<and>
      (\<exists>per_date. dict_getitem METRICS symbol = Inr per_date \<and> per_date \<noteq> [])"
    using get_all_metrics_nonempty_iff [of num METRICS symbol]
    unfolding symbol_is_valid_def .
qed

lemma sample_stored_not_listed:
  "''MSFT.US'' \<notin> set SYMBOLS \<or> \<not> dict_contains sample_metrics ''MSFT.US''"
  by (simp add: SYMBOLS_def)

lemma sample_stored_contains:
  "''MSFT.US'' \<notin> set SYMBOLS \<and> dict_contains sample_metrics ''MSFT.US''"
  by (simp add: SYMBOLS_def dict_contains_def sample_metrics_def)

lemma sample_stored: "dict_getitem sample_metrics ''MSFT.US'' = Inr [(''2025-03-31'', [(''current_ratio'', 2)])]"
  by (simp add: dict_getitem_def sample_metrics_def)

theorem nonempty_iff_valid_and_has_quarters_witness:
  "''MSFT.US'' \<notin> set SYMBOLS \<and> dict_contains sample_metrics ''MSFT.US'' \<and>
   dict_getitem sample_metrics ''MSFT.US'' = Inr [(''2025-03-31'', [(''current_ratio'', 2)])] \<and>
   get_latest_metrics sample_num sample_metrics ''MSFT.US'' = Inr ''{}'' \<and>
   get_all_metrics sample_num sample_metrics ''MSFT.US'' = Inr ''{}''"
proof -
  have "get_latest_metrics sample_num sample_metrics ''MSFT.US'' = Inr ''{}'' \<and>
      get_all_metrics sample_num sample_metrics ''MSFT.US'' = Inr ''{}''"
    using nonempty_iff_valid_and_has_quarters [of "''MSFT.US''" sample_metrics sample_num,
        THEN conjunct1, rule_format, OF sample_stored_not_listed] .
  with sample_stored_contains sample_stored show ?thesis by (intro conjI) fast+
qed

section \<open>Properties of the round-robin team\<close>

subsection \<open>Invariants are kept by a run\<close>







lemma append_messages_prefix:
  "append_messages c t ms = (c', t', f) \<Longrightarrow> prefix t t'"
proof (induction ms arbitrary: c t)
  case Nil
  then show ?case by simp
next
  case (Cons m ms)
  obtain c1 f1 where ev: "evaluate c m = (c1, f1)" by (cases "evaluate c m")
  show ?case
  proof (cases f1)
    case None
    with ev Cons.prems have "append_messages c1 (t @ [m]) ms = (c', t', f)" by simp
    then have "prefix (t @ [m]) t'" by (rule Cons.IH)
    then show ?thesis by (rule append_prefixD)
  next
    case (Some r)
    with ev Cons.prems show ?thesis by auto
  qed
qed

lemma play_round_prefix: "prefix t (round_transcript (play_round ps c t n))"
proof (induction ps arbitrary: c t n)
  case Nil
  show ?case by simp
next
  case (Cons p ps)
  show ?case
  proof (cases "invoke p t")
    case None
    then show ?thesis by simp
  next
    case (Some contents)
    obtain c' t' f where ap: "append_messages c t (emitted p contents) = (c', t', f)"
      by (cases "append_messages c t (emitted p contents)")
    then have pre: "prefix t t'" by (rule append_messages_prefix)
    show ?thesis
    proof (cases f)
      case None
      have "prefix t' (round_transcript (play_round ps c' t' (Suc n)))" by (rule Cons.IH)
      with pre have "prefix t (round_transcript (play_round ps c' t' (Suc n)))"
        by (rule prefix_order.trans)
      with Some ap None show ?thesis by simp
    next
      case fired: (Some r)
      with pre Some ap show ?thesis by simp
    qed
  qed
qed

lemma rounds_prefix: "prefix t (transcript_of (rounds max_rounds k ps c t n))"
proof (induction max_rounds k ps c t n rule: rounds.induct)
  case (1 max_rounds k ps c t n)
  show ?case
  proof (cases "max_rounds \<le> k")
    case True
    then show ?thesis by simp
  next
    case False
    have pre: "prefix t (round_transcript (play_round ps c t n))" by (rule play_round_prefix)
    show ?thesis
    proof (cases "play_round ps c t n")
      case (Continue c' t' n')
      with False have "prefix t' (transcript_of (rounds max_rounds (Suc k) ps c' t' n'))"
        by (intro "1.IH") simp_all
      moreover from pre Continue have "prefix t t'" by simp
      ultimately have "prefix t (transcript_of (rounds max_rounds (Suc k) ps c' t' n'))"
        by (rule prefix_order.trans [rotated])
      with False Continue show ?thesis by simp
    next
      case (Finished r)
      with pre False show ?thesis by simp
    qed
  qed
qed

lemma run_seed:
  assumes "ps \<noteq> []" "well_configured c"
  shows "prefix [\<lparr>source = ''user'', content = task\<rparr>] (transcript_of (run ps task c max_rounds))"
proof -
  let ?seed = "\<lparr>source = ''user'', content = task\<rparr>"
  obtain c' f where ev: "evaluate (reset c) ?seed = (c', f)" by (cases "evaluate (reset c) ?seed")
  show ?thesis
  proof (cases f)
    case None
    with assms ev have "run ps task c max_rounds = rounds max_rounds 0 ps c' [?seed] 0"
      by (simp add: run_def)
    then show ?thesis by (simp only: rounds_prefix)
  next
    case (Some r)
    with assms ev show ?thesis by (simp add: run_def)
  qed
qed


subsection \<open>Stopping at the first mention\<close>












subsection \<open>The earlier of the mention and the bound\<close>










subsection \<open>The count bound\<close>

lemma append_messages_counting:
  "k < N \<Longrightarrow>
   append_messages (CountBound N k) t ms =
     (if k + length ms < N then (CountBound N (k + length ms), t @ ms, None)
      else (CountBound N N, t @ take (N - k) ms, Some CountBoundFired))"
proof (induction ms arbitrary: k t)
  case Nil
  then show ?case by simp
next
  case (Cons m ms)
  show ?case
  proof (cases "N \<le> Suc k")
    case True
    with Cons.prems have "N = Suc k" by simp
    then show ?thesis by simp
  next
    case False
    then have "Suc k < N" by simp
    then have "append_messages (CountBound N (Suc k)) (t @ [m]) ms =
     (if Suc k + length ms < N
      then (CountBound N (Suc k + length ms), (t @ [m]) @ ms, None)
      else (CountBound N N, (t @ [m]) @ take (N - Suc k) ms, Some CountBoundFired))"
      by (rule Cons.IH)
    moreover from False have "take (N - k) (m # ms) = m # take (N - Suc k) ms"
      by (simp add: take_Cons')
    ultimately show ?thesis using False by simp
  qed
qed

lemma play_round_counting:
  assumes "\<forall>p\<in>set ps. always_produces p" "k < N"
  shows "(\<exists>t' n'. play_round ps (CountBound N k) t n =
            Finished (Inr (Stopped CountBoundFired, t', n')) \<and>
            length t' = length t + (N - k)) \<or>
         (\<exists>k' t' n'. play_round ps (CountBound N k) t n = Continue (CountBound N k') t' n' \<and>
            k + length ps \<le> k' \<and> k' < N \<and> length t' = length t + (k' - k))"
  using assms
proof (induction ps arbitrary: k t n)
  case Nil
  then show ?case by simp
next
  case (Cons p ps)
  from Cons.prems(1) have "always_produces p" by simp
  then obtain contents where inv: "invoke p t = Some contents" and ne: "contents \<noteq> []"
    unfolding always_produces_def by blast
  let ?ms = "emitted p contents"
  have len_ms: "1 \<le> length ?ms" using ne by (cases contents) (simp_all add: emitted_def)
  note ap = append_messages_counting [OF Cons.prems(2), of t ?ms]
  show ?case
  proof (cases "k + length ?ms < N")
    case True
    from Cons.prems(1) have "\<forall>p\<in>set ps. always_produces p" by simp
    then have "(\<exists>t' n'. play_round ps (CountBound N (k + length ?ms)) (t @ ?ms) (Suc n) =
            Finished (Inr (Stopped CountBoundFired, t', n')) \<and>
            length t' = length (t @ ?ms) + (N - (k + length ?ms))) \<or>
         (\<exists>k' t' n'. play_round ps (CountBound N (k + length ?ms)) (t @ ?ms) (Suc n) =
            Continue (CountBound N k') t' n' \<and>
            k + length ?ms + length ps \<le> k' \<and> k' < N \<and>
            length t' = length (t @ ?ms) + (k' - (k + length ?ms)))"
      using True by (rule Cons.IH)
    moreover have "play_round (p # ps) (CountBound N k) t n =
        play_round ps (CountBound N (k + length ?ms)) (t @ ?ms) (Suc n)"
      using inv ap True by simp
    ultimately show ?thesis using len_ms True by auto
  next
    case False
    with Cons.prems(2) have "length (t @ take (N - k) ?ms) = length t + (N - k)" by simp
    moreover have "play_round (p # ps) (CountBound N k) t n =
        Finished (Inr (Stopped CountBoundFired, t @ take (N - k) ?ms, Suc n))"
      using inv ap False by simp
    ultimately show ?thesis by blast
  qed
qed

lemma rounds_counting:
  assumes "\<forall>p\<in>set ps. always_produces p"
  shows "k < N \<Longrightarrow> N - k \<le> (max_rounds - r) * length ps \<Longrightarrow>
    \<exists>t' n'. rounds max_rounds r ps (CountBound N k) t n =
      Inr (Stopped CountBoundFired, t', n') \<and> length t' = length t + (N - k)"
proof (induction "max_rounds - r" arbitrary: r k t n)
  case 0
  then show ?case by simp
next
  case (Suc d)
  then have running: "\<not> max_rounds \<le> r" and d: "d = max_rounds - Suc r" by simp_all
  from play_round_counting [OF assms Suc.prems(1), of t n]
  show ?case
  proof (elim disjE exE conjE)
    fix t' n'
    assume "play_round ps (CountBound N k) t n =
        Finished (Inr (Stopped CountBoundFired, t', n'))" "length t' = length t + (N - k)"
    with running show ?thesis by simp
  next
    fix k' t' n'
    assume pr: "play_round ps (CountBound N k) t n = Continue (CountBound N k') t' n'"
      and grow: "k + length ps \<le> k'" and below: "k' < N"
      and len: "length t' = length t + (k' - k)"
    from Suc.hyps(2) Suc.prems(2) have "N - k \<le> Suc d * length ps" by simp
    with grow have "N - k' \<le> d * length ps" by simp
    with d have "N - k' \<le> (max_rounds - Suc r) * length ps" by simp
    with d below have "\<exists>t'' n''. rounds max_rounds (Suc r) ps (CountBound N k') t' n' =
        Inr (Stopped CountBoundFired, t'', n'') \<and> length t'' = length t' + (N - k')"
      by (intro Suc.hyps(1))
    moreover from grow below len have "length t' + (N - k') = length t + (N - k)" by simp
    ultimately show ?thesis using running pr by simp
  qed
qed

text \<open>
  Claim C3. For every threshold \<open>N \<ge> 1\<close>, a run whose termination condition is a
  count bound of \<open>N\<close>, with participants that never fail and produce at least one
  message in every turn, stops by the count bound with exactly \<open>N\<close> messages in the
  transcript beyond the seed. There is no content match in the condition, and the hard
  cap leaves room for \<open>N\<close> messages: \<open>N\<close> is at most the cap times the number of
  participants. The run is the one whose condition is evaluated on the messages of the
  participants, as sections 4.1 and 8 of the spec have it.
\<close>

theorem count_bound_stops_N_beyond_seed:
  assumes "1 \<le> N" and "\<forall>p\<in>set ps. always_produces p"
    and "N \<le> max_rounds * length ps"
  shows "\<exists>rest n. run_after_seed ps task (CountBound N k) max_rounds =
           Inr (Stopped CountBoundFired, \<lparr>source = ''user'', content = task\<rparr> # rest, n) \<and>
         length rest = N"
proof -
  let ?seed = "\<lparr>source = ''user'', content = task\<rparr>"
  from assms(1,3) have ne: "ps \<noteq> []" by auto
  from assms(1) have "0 < N" by simp
  moreover from assms(3) have "N - 0 \<le> (max_rounds - 0) * length ps" by simp
  ultimately obtain t n where r: "rounds max_rounds 0 ps (CountBound N 0) [?seed] 0 =
      Inr (Stopped CountBoundFired, t, n)" and len: "length t = length [?seed] + (N - 0)"
    using rounds_counting [OF assms(2), of 0 N max_rounds 0 "[?seed]" 0] by blast
  have "prefix [?seed] (transcript_of (rounds max_rounds 0 ps (CountBound N 0) [?seed] 0))"
    by (rule rounds_prefix)
  with r obtain rest where t: "t = ?seed # rest" by (auto simp: prefix_def)
  have "run_after_seed ps task (CountBound N k) max_rounds =
      rounds max_rounds 0 ps (CountBound N 0) [?seed] 0"
    using assms(1) ne by (simp add: run_after_seed_def)
  with r t len show ?thesis by simp
qed

lemma lone_participant_always_produces: "\<forall>p\<in>set lone_participant. always_produces p"
  by (simp add: lone_participant_def always_produces_def replies_def)

lemma lone_participant_run:
  "run_after_seed lone_participant ''go'' (CountBound 3 0) 100 =
     Inr (Stopped CountBoundFired,
          [\<lparr>source = ''user'', content = ''go''\<rparr>,
           \<lparr>source = ''Analyst'', content = ''noted''\<rparr>,
           \<lparr>source = ''Analyst'', content = ''noted''\<rparr>,
           \<lparr>source = ''Analyst'', content = ''noted''\<rparr>], 3)"
  by (simp add: run_after_seed_def lone_participant_def replies_def emitted_def)

lemma team_always_produces: "\<forall>p\<in>set team. always_produces p"
  by (simp add: team_def always_produces_def replies_def)

theorem count_bound_stops_N_beyond_seed_witness:
  "(\<exists>rest n. run_after_seed lone_participant ''go'' (CountBound 3 0) 100 =
      Inr (Stopped CountBoundFired, \<lparr>source = ''user'', content = ''go''\<rparr> # rest, n) \<and>
      length rest = 3) \<and>
   (\<exists>rest n. run_after_seed team ''ALERT'' team_condition 100 =
      Inr (Stopped CountBoundFired, \<lparr>source = ''user'', content = ''ALERT''\<rparr> # rest, n) \<and>
      length rest = 6) \<and>
   run_after_seed lone_participant ''go'' (CountBound 3 0) 100 =
     Inr (Stopped CountBoundFired,
          [\<lparr>source = ''user'', content = ''go''\<rparr>,
           \<lparr>source = ''Analyst'', content = ''noted''\<rparr>,
           \<lparr>source = ''Analyst'', content = ''noted''\<rparr>,
           \<lparr>source = ''Analyst'', content = ''noted''\<rparr>], 3)"
proof -
  have a: "(1::nat) \<le> 3" and b: "(3::nat) \<le> 100 * length lone_participant"
    by (simp_all add: lone_participant_def)
  have c: "(1::nat) \<le> 6" and d: "(6::nat) \<le> 100 * length team"
    by (simp_all add: team_def)
  from count_bound_stops_N_beyond_seed [OF a lone_participant_always_produces b, of "''go''" 0]
    count_bound_stops_N_beyond_seed [OF c team_always_produces d, of "''ALERT''" 0,
      folded team_condition_def]
    lone_participant_run
  show ?thesis by (intro conjI)
qed

subsection \<open>Round-robin order\<close>

lemma alternating_snoc:
  assumes "alternating A B t" "t \<noteq> []" "source m = name ([A, B] ! ((length t - 1) mod 2))"
  shows "alternating A B (t @ [m])"
  unfolding alternating_def
proof (intro allI impI)
  fix i
  assume "Suc i < length (t @ [m])"
  then consider "Suc i < length t" | "Suc i = length t" by fastforce
  then show "source ((t @ [m]) ! Suc i) = name ([A, B] ! (i mod 2))"
  proof cases
    case 1
    with assms(1) show ?thesis by (simp add: alternating_def nth_append)
  next
    case 2
    then have "i = length t - 1" by simp
    with 2 assms(3) show ?thesis by (simp add: nth_append)
  qed
qed

lemma play_turn:
  assumes "invoke p t = Some [x]"
  shows "play_round (p # ps) c t n =
     (case evaluate c \<lparr>source = name p, content = x\<rparr> of
        (c', Some r) \<Rightarrow> Finished (Inr (Stopped r, t @ [\<lparr>source = name p, content = x\<rparr>], Suc n))
      | (c', None) \<Rightarrow> play_round ps c' (t @ [\<lparr>source = name p, content = x\<rparr>]) (Suc n))"
  using assms by (simp add: emitted_def split: prod.splits option.splits)

lemma play_round_alternating:
  assumes "one_message A" "one_message B" "odd (length t)" "alternating A B t"
  shows "round_alternating A B (play_round [A, B] c t n)"
proof -
  from assms(1) obtain x where x: "invoke A t = Some [x]"
    unfolding one_message_def by blast
  let ?a = "\<lparr>source = name A, content = x\<rparr>"
  from assms(3) have ne: "t \<noteq> []" by auto
  from assms(3) have "(length t - 1) mod 2 = 0" by (cases t) simp_all
  then have "source ?a = name ([A, B] ! ((length t - 1) mod 2))" by simp
  with assms(4) ne have alt_a: "alternating A B (t @ [?a])" by (rule alternating_snoc)
  obtain c1 f1 where ev1: "evaluate c ?a = (c1, f1)" by (cases "evaluate c ?a")
  show ?thesis
  proof (cases f1)
    case (Some r)
    with ev1 alt_a show ?thesis by (simp add: play_turn [OF x] del: play_round.simps(2))
  next
    case None
    from assms(2) obtain y where y: "invoke B (t @ [?a]) = Some [y]"
      unfolding one_message_def by blast
    let ?b = "\<lparr>source = name B, content = y\<rparr>"
    from assms(3) have "(length (t @ [?a]) - 1) mod 2 = 1" by (simp add: odd_iff_mod_2_eq_one)
    then have src: "source ?b = name ([A, B] ! ((length (t @ [?a]) - 1) mod 2))" by simp
    have "t @ [?a] \<noteq> []" by simp
    with alt_a have alt_b: "alternating A B ((t @ [?a]) @ [?b])"
      using src by (rule alternating_snoc)
    obtain c2 f2 where ev2: "evaluate c1 ?b = (c2, f2)" by (cases "evaluate c1 ?b")
    have "play_round [A, B] c t n = play_round [B] c1 (t @ [?a]) (Suc n)"
      using ev1 None by (simp add: play_turn [OF x] del: play_round.simps(2))
    also have "\<dots> = (case f2 of
        Some r \<Rightarrow> Finished (Inr (Stopped r, (t @ [?a]) @ [?b], Suc (Suc n)))
      | None \<Rightarrow> Continue c2 ((t @ [?a]) @ [?b]) (Suc (Suc n)))"
      using ev2 by (simp add: play_turn [OF y] del: play_round.simps(2) split: option.splits)
    finally show ?thesis using alt_b assms(3) by (simp split: option.splits)
  qed
qed

lemma rounds_alternating:
  assumes "one_message A" "one_message B"
  shows "odd (length t) \<Longrightarrow> alternating A B t \<Longrightarrow>
    \<exists>st t' n'. rounds max_rounds k [A, B] c t n = Inr (st, t', n') \<and> alternating A B t'"
proof (induction "max_rounds - k" arbitrary: k c t n)
  case 0
  then show ?case by simp
next
  case (Suc d)
  then have running: "\<not> max_rounds \<le> k" by simp
  have ok: "round_alternating A B (play_round [A, B] c t n)"
    using assms Suc.prems by (rule play_round_alternating)
  show ?case
  proof (cases "play_round [A, B] c t n")
    case (Continue c' t' n')
    with ok have "odd (length t')" "alternating A B t'" by simp_all
    moreover from Suc.hyps(2) have "d = max_rounds - Suc k" by simp
    ultimately have "\<exists>st t'' n''. rounds max_rounds (Suc k) [A, B] c' t' n' = Inr (st, t'', n'') \<and>
        alternating A B t''"
      by (intro Suc.hyps(1))
    with running Continue show ?thesis by simp
  next
    case (Finished r)
    with ok obtain st t' n' where "r = Inr (st, t', n')" "alternating A B t'"
      by (cases r) auto
    with running Finished show ?thesis by simp
  qed
qed

text \<open>
  Claim C4. In a run of a team of two participants \<open>[A, B]\<close> that each produce exactly
  one message per turn, the transcript starts with the seed and the message \<open>i\<close> after
  the seed (counted from zero) has as its source the name of the participant at position
  \<open>i mod 2\<close>: the sources read A, B, A, B, and so on, until the run ends.
\<close>

theorem two_participants_alternate:
  assumes "one_message A" "one_message B" "well_configured c"
  shows "\<exists>st t n. run [A, B] task c max_rounds = Inr (st, t, n) \<and>
           t ! 0 = \<lparr>source = ''user'', content = task\<rparr> \<and>
           (\<forall>i. Suc i < length t \<longrightarrow> source (t ! Suc i) = name ([A, B] ! (i mod 2)))"
proof -
  let ?seed = "\<lparr>source = ''user'', content = task\<rparr>"
  have start: "odd (length [?seed])" "alternating A B [?seed]"
    by (simp_all add: alternating_def)
  obtain c' f where ev: "evaluate (reset c) ?seed = (c', f)" by (cases "evaluate (reset c) ?seed")
  have "\<exists>st t n. run [A, B] task c max_rounds = Inr (st, t, n) \<and> alternating A B t"
  proof (cases f)
    case None
    with assms(3) ev have "run [A, B] task c max_rounds = rounds max_rounds 0 [A, B] c' [?seed] 0"
      by (simp add: run_def)
    with rounds_alternating [OF assms(1,2) start, of max_rounds 0 c' 0]
    show ?thesis by simp
  next
    case (Some r)
    with assms(3) ev have "run [A, B] task c max_rounds = Inr (Stopped r, [?seed], 0)"
      by (simp add: run_def)
    with start(2) show ?thesis by simp
  qed
  then obtain st t n where r: "run [A, B] task c max_rounds = Inr (st, t, n)"
    and alt: "alternating A B t" by blast
  have "prefix [?seed] (transcript_of (run [A, B] task c max_rounds))"
    using assms(3) by (intro run_seed) simp_all
  with r have "t ! 0 = ?seed" by (auto simp: prefix_def)
  with r alt show ?thesis unfolding alternating_def by blast
qed

lemma replies_one_message: "one_message (replies n text)"
  by (simp add: one_message_def replies_def)

theorem two_participants_alternate_witness:
  "one_message (replies ''ExecutorWorker'' ''pending'') \<and>
   one_message (replies ''Critic'' ''data is missing'') \<and>
   well_configured termination_condition \<and>
   (\<exists>st t n. run [replies ''ExecutorWorker'' ''pending'', replies ''Critic'' ''data is missing'']
        ''plan'' termination_condition 2 = Inr (st, t, n) \<and>
      t ! 0 = \<lparr>source = ''user'', content = ''plan''\<rparr> \<and>
      (\<forall>i. Suc i < length t \<longrightarrow>
         source (t ! Suc i) =
           name ([replies ''ExecutorWorker'' ''pending'', replies ''Critic'' ''data is missing''] ! (i mod 2))))"
proof -
  have cfg: "well_configured termination_condition" by (simp add: termination_condition_def)
  from two_participants_alternate [OF replies_one_message replies_one_message cfg]
  show ?thesis using cfg replies_one_message by (simp only: simp_thms)
qed

subsection \<open>The hard cap\<close>













end
